theory Spec2Isabelle
  imports Main "HOL-Library.Multiset"
begin

section \<open>Data model\<close>

text \<open>
  The input of one invocation (\<^verbatim>\<open>lib.Input\<close>), which \<^verbatim>\<open>main\<close> assembles from the
  environment. A JavaScript \<^verbatim>\<open>Set<string>\<close> iterates in insertion order and holds no
  element twice; it is represented by the list of its elements in insertion order.
  A JavaScript string is a \<open>string\<close>: the functions below compare strings, concatenate
  them and search the ASCII pattern \<^verbatim>\<open>[bot]\<close>, which do not depend on how a character
  is encoded.
\<close>

type_synonym 'a js_set = "'a list"

record Input =
  githubToken :: string
  repositoryOwner :: string
  repositoryName :: string
  pullRequestNumber :: int
  machineUsers :: "string js_set"
  actor :: string
  eventName :: string
  eventAction :: string
  prMerged :: bool
  reviewState :: string

text \<open>
  Modelled from the spec: the entity declarations of \<^verbatim>\<open>type.ts\<close> (CommitRecord,
  ReviewRecord, AssigneeRecord of section 3) are not among the sources. They have the
  shapes that \<^verbatim>\<open>run.ts\<close> reads and that the test helpers \<^verbatim>\<open>makeCommit\<close>, \<^verbatim>\<open>makeReview\<close>
  and \<^verbatim>\<open>makeAssignee\<close> build: a \<^verbatim>\<open>user\<close> that may be \<^verbatim>\<open>null\<close> is an \<open>option\<close>, an
  object \<^verbatim>\<open>{nodes: [...]}\<close> is a \<open>Nodes\<close> record. The field \<^verbatim>\<open>commit: {oid}\<close> of a
  review is named \<open>reviewCommit\<close> and holds the oid, since \<open>commit\<close> is the field of a
  pull request commit.
\<close>

record User =
  login :: string
  resourcePath :: string

record GitActor =
  user :: "User option"

record 'a Nodes =
  nodes :: "'a list"

record Commit =
  oid :: string
  committer :: GitActor
  authors :: "GitActor Nodes"

record PullRequestCommit =
  commit :: Commit

record Review =
  state :: string
  reviewCommit :: string
  author :: User

section \<open>The Set operations used\<close>

definition set_add :: "'a js_set \<Rightarrow> 'a \<Rightarrow> 'a js_set" where
  "set_add s x = (if x \<in> set s then s else s @ [x])"

definition set_has :: "'a js_set \<Rightarrow> 'a \<Rightarrow> bool" where
  "set_has s x = (x \<in> set s)"

section \<open>collectUsersToNotify\<close>

text \<open>The inner loop over \<^verbatim>\<open>node.commit.authors.nodes\<close>.\<close>

fun add_authors :: "string js_set \<Rightarrow> GitActor list \<Rightarrow> string js_set" where
  "add_authors users [] = users"
| "add_authors users (a # rest) =
     add_authors (case user a of Some u \<Rightarrow> set_add users (login u) | None \<Rightarrow> users) rest"

text \<open>The loop over \<^verbatim>\<open>commits\<close>.\<close>

fun add_commits :: "string js_set \<Rightarrow> PullRequestCommit list \<Rightarrow> string js_set" where
  "add_commits users [] = users"
| "add_commits users (node # rest) =
     (let users1 = (case user (committer (commit node)) of
                      Some u \<Rightarrow> set_add users (login u)
                    | None \<Rightarrow> users);
          users2 = add_authors users1 (nodes (authors (commit node)))
      in add_commits users2 rest)"

text \<open>The loop over \<^verbatim>\<open>reviews\<close>, run only for a closed pull request.\<close>

fun add_approvers :: "string js_set \<Rightarrow> Review list \<Rightarrow> string js_set" where
  "add_approvers users [] = users"
| "add_approvers users (review # rest) =
     add_approvers (if state review = ''APPROVED'' then set_add users (login (author review))
                    else users) rest"

text \<open>The loop over \<^verbatim>\<open>assignees\<close>.\<close>

fun add_assignees :: "string js_set \<Rightarrow> User list \<Rightarrow> string js_set" where
  "add_assignees users [] = users"
| "add_assignees users (assignee # rest) = add_assignees (set_add users (login assignee)) rest"

definition collectUsersToNotify ::
  "Input \<Rightarrow> PullRequestCommit list \<Rightarrow> Review list \<Rightarrow> User list \<Rightarrow> string js_set" where
  "collectUsersToNotify input commits reviews assignees =
     (let users0 = [];
          users1 = add_commits users0 commits;
          users2 = (if eventName input = ''pull_request'' \<and> eventAction input = ''closed''
                    then add_approvers users1 reviews else users1)
      in add_assignees users2 assignees)"

section \<open>filterUsers\<close>

text \<open>\<^verbatim>\<open>String.prototype.startsWith\<close> and \<^verbatim>\<open>String.prototype.includes\<close> (named \<open>includes_str\<close>: \<open>includes\<close> is a keyword).\<close>

fun startsWith :: "string \<Rightarrow> string \<Rightarrow> bool" where
  "startsWith s [] = True"
| "startsWith [] (p # ps) = False"
| "startsWith (c # cs) (p # ps) = (c = p \<and> startsWith cs ps)"

fun includes_str :: "string \<Rightarrow> string \<Rightarrow> bool" where
  "includes_str [] pat = startsWith [] pat"
| "includes_str (c # cs) pat = (startsWith (c # cs) pat \<or> includes_str cs pat)"

definition filterUsers :: "string js_set \<Rightarrow> string \<Rightarrow> string js_set \<Rightarrow> string list" where
  "filterUsers users actor' machineUsers' =
     filter (\<lambda>login'.
        if login' = actor' then False
        else if includes_str login' ''[bot]'' then False
        else if set_has machineUsers' login' then False
        else True) users"

section \<open>formatComment\<close>

text \<open>\<^verbatim>\<open>Array.prototype.join\<close> on an array of strings.\<close>

fun join :: "string list \<Rightarrow> string \<Rightarrow> string" where
  "join [] sep = []"
| "join [x] sep = x"
| "join (x # y # ys) sep = x @ sep @ join (y # ys) sep"

definition formatComment :: "string list \<Rightarrow> Input \<Rightarrow> string" where
  "formatComment users input =
     (let mentions = join (map (\<lambda>u. ''@'' @ u) users) '' '';
          action =
            (if eventName input = ''pull_request'' then
               (if prMerged input then ''Merged the pull request.''
                else if eventAction input = ''closed'' then ''Closed the pull request.''
                else ''Pull request '' @ eventAction input @ ''.'')
             else if eventName input = ''pull_request_review'' then
               (if reviewState input = ''approved'' then ''The pull request was approved.''
                else if reviewState input = ''changes_requested'' then ''Changes were requested.''
                else if reviewState input = ''commented''
                  then ''A comment was left on the pull request.''
                else ''A review was submitted.'')
             else ''Event: '' @ eventName input @ ''/'' @ eventAction input)
      in mentions @ '' '' @ action)"


section \<open>The orchestrator\<close>

text \<open>
  Modelled from the spec: the responses of the remote API (section 6). A page of
  records carries \<^verbatim>\<open>pageInfo.hasNextPage\<close> and \<^verbatim>\<open>pageInfo.endCursor\<close>, as \<^verbatim>\<open>run\<close> reads
  them; the cursor may be \<^verbatim>\<open>null\<close>.
\<close>

record PageInfo =
  hasNextPage :: bool
  endCursor :: "string option"

record 'a Connection = "'a Nodes" +
  pageInfo :: PageInfo

record PullRequest =
  commits :: "PullRequestCommit Connection"
  reviews :: "Review Connection"
  assignees :: "User Nodes"

text \<open>
  The remote collaborator: what \<^verbatim>\<open>github.getPullRequest\<close> answers (the value of
  \<^verbatim>\<open>prData.repository.pullRequest\<close>), and the page of commits and of reviews that
  follows a cursor.
\<close>

record GitHub =
  getPullRequest :: "Input \<Rightarrow> PullRequest"
  commitsAfter :: "Input \<Rightarrow> string \<Rightarrow> PullRequestCommit Connection"
  reviewsAfter :: "Input \<Rightarrow> string \<Rightarrow> Review Connection"

text \<open>
  The truthiness of \<^verbatim>\<open>endCursor\<close> in \<^verbatim>\<open>hasNextPage && endCursor\<close>: \<^verbatim>\<open>null\<close> and the
  empty string are falsy.
\<close>

fun truthy :: "string option \<Rightarrow> bool" where
  "truthy None = False"
| "truthy (Some s) = (s \<noteq> [])"

text \<open>
  Modelled from the spec: \<^verbatim>\<open>github.listCommits\<close> and \<^verbatim>\<open>github.listReviews\<close> (in
  \<^verbatim>\<open>github.ts\<close>) are not among the sources. Section 6 gives them as
  \<^verbatim>\<open>fetchMoreCommits(owner, repo, prNumber, cursor) -> records\<close> and
  \<^verbatim>\<open>fetchMoreReviews(...)\<close>, "repeat while more pages exist": starting at the cursor,
  a page is fetched and its records kept, and the next page is fetched as long as the
  page just read reports a next page with a cursor. A remote that never reports a last
  page makes the loop run forever; that is the value \<open>None\<close>.
\<close>

partial_function (option) listPages ::
  "(string \<Rightarrow> 'a Connection) \<Rightarrow> string \<Rightarrow> 'a list option" where
  "listPages fetch cursor =
     (let page = fetch cursor in
      if hasNextPage (pageInfo page) \<and> truthy (endCursor (pageInfo page))
      then Option.bind (listPages fetch (the (endCursor (pageInfo page))))
             (\<lambda>rest. Some (nodes page @ rest))
      else Some (nodes page))"

definition listCommits :: "GitHub \<Rightarrow> Input \<Rightarrow> string \<Rightarrow> PullRequestCommit list option" where
  "listCommits gh input cursor = listPages (commitsAfter gh input) cursor"

definition listReviews :: "GitHub \<Rightarrow> Input \<Rightarrow> string \<Rightarrow> Review list option" where
  "listReviews gh input cursor = listPages (reviewsAfter gh input) cursor"

text \<open>Step 2 of \<^verbatim>\<open>run\<close>: the commits handed on, \<open>None\<close> when the fetch does not return.\<close>

definition paginateCommits ::
  "GitHub \<Rightarrow> Input \<Rightarrow> PullRequest \<Rightarrow> PullRequestCommit list option" where
  "paginateCommits gh input pr =
     (if hasNextPage (pageInfo (commits pr)) \<and> truthy (endCursor (pageInfo (commits pr)))
      then Option.bind (listCommits gh input (the (endCursor (pageInfo (commits pr)))))
             (\<lambda>additionalCommits. Some (nodes (commits pr) @ additionalCommits))
      else Some (nodes (commits pr)))"

text \<open>Step 3 of \<^verbatim>\<open>run\<close>: the reviews handed on.\<close>

definition paginateReviews :: "GitHub \<Rightarrow> Input \<Rightarrow> PullRequest \<Rightarrow> Review list option" where
  "paginateReviews gh input pr =
     (if hasNextPage (pageInfo (reviews pr)) \<and> truthy (endCursor (pageInfo (reviews pr)))
      then Option.bind (listReviews gh input (the (endCursor (pageInfo (reviews pr)))))
             (\<lambda>additionalReviews. Some (nodes (reviews pr) @ additionalReviews))
      else Some (nodes (reviews pr)))"

text \<open>
  What a run does to the pull request: it posts one comment, or it posts nothing
  because no user is left after filtering. The lines written with \<^verbatim>\<open>core.info\<close> are not
  part of the outcome.
\<close>

datatype Outcome = NoUsersToNotify | CommentPosted string

text \<open>Steps 4 to 7 of \<^verbatim>\<open>run\<close>, on the lists of steps 2 and 3.\<close>

definition notify ::
  "Input \<Rightarrow> PullRequestCommit list \<Rightarrow> Review list \<Rightarrow> User list \<Rightarrow> Outcome" where
  "notify input commits' reviews' assignees' =
     (let users = collectUsersToNotify input commits' reviews' assignees';
          filteredUsers = filterUsers users (actor input) (machineUsers input)
      in if length filteredUsers = 0 then NoUsersToNotify
         else CommentPosted (formatComment filteredUsers input))"

definition run :: "GitHub \<Rightarrow> Input \<Rightarrow> Outcome option" where
  "run gh input =
     (let pr = getPullRequest gh input in
      Option.bind (paginateCommits gh input pr) (\<lambda>commits'.
      Option.bind (paginateReviews gh input pr) (\<lambda>reviews'.
        Some (notify input commits' reviews' (nodes (assignees pr))))))"

section \<open>Specification vocabulary\<close>

text \<open>The logins of the identities that are present in a list of git actors.\<close>

definition present_logins :: "GitActor list \<Rightarrow> string set" where
  "present_logins as = {login u | u a. a \<in> set as \<and> user a = Some u}"

text \<open>The logins one commit contributes: its committer and its authors, where present.\<close>

definition commit_logins :: "PullRequestCommit \<Rightarrow> string set" where
  "commit_logins c = present_logins (committer (commit c) # nodes (authors (commit c)))"

text \<open>The authors of the reviews whose state is exactly \<^verbatim>\<open>APPROVED\<close>.\<close>

definition approver_logins :: "Review list \<Rightarrow> string set" where
  "approver_logins rs = {login (author r) | r. r \<in> set rs \<and> state r = ''APPROVED''}"

text \<open>
  The action sentence as the table of section 4.3 of the specification words it, row by
  row; its last row ends in a period. It is compared with \<open>formatComment\<close> below.
\<close>

definition spec_table_sentence :: "Input \<Rightarrow> string" where
  "spec_table_sentence input =
     (if eventName input = ''pull_request'' then
        (if prMerged input then ''Merged the pull request.''
         else if eventAction input = ''closed'' then ''Closed the pull request.''
         else ''Pull request '' @ eventAction input @ ''.'')
      else if eventName input = ''pull_request_review'' then
        (if reviewState input = ''approved'' then ''The pull request was approved.''
         else if reviewState input = ''changes_requested'' then ''Changes were requested.''
         else if reviewState input = ''commented''
           then ''A comment was left on the pull request.''
         else ''A review was submitted.'')
      else ''Event: '' @ eventName input @ ''/'' @ eventAction input @ ''.'')"

text \<open>
  The pages that exist beyond a page whose \<^verbatim>\<open>pageInfo\<close> is \<open>pi\<close>: \<open>further_pages fetch pi ps\<close>
  holds when \<open>ps\<close> are, in order, the pages reached by following the cursors from \<open>pi\<close>,
  every page but the last reporting a next page with a cursor, and the last one not.
\<close>

fun further_pages :: "(string \<Rightarrow> 'a Connection) \<Rightarrow> PageInfo \<Rightarrow> 'a Connection list \<Rightarrow> bool" where
  "further_pages fetch pi [] = (\<not> (hasNextPage pi \<and> truthy (endCursor pi)))"
| "further_pages fetch pi (p # ps) =
     (hasNextPage pi \<and> truthy (endCursor pi) \<and> fetch (the (endCursor pi)) = p
      \<and> further_pages fetch (pageInfo p) ps)"

section \<open>Test data\<close>

text \<open>The helpers of the test file, and a remote with three pages of commits and two of reviews.\<close>

definition makeInput :: Input where
  "makeInput = \<lparr>githubToken = '''', repositoryOwner = ''owner'', repositoryName = ''repo'',
     pullRequestNumber = 1, machineUsers = [], actor = ''actor'',
     eventName = ''pull_request'', eventAction = ''closed'', prMerged = True,
     reviewState = ''''\<rparr>"

definition makeUser :: "string \<Rightarrow> User" where
  "makeUser l = \<lparr>login = l, resourcePath = ''/'' @ l\<rparr>"

definition makeActor :: "string option \<Rightarrow> GitActor" where
  "makeActor l = \<lparr>user = map_option makeUser l\<rparr>"

definition makeCommit :: "string option \<Rightarrow> string option list \<Rightarrow> PullRequestCommit" where
  "makeCommit committerLogin authorLogins =
     \<lparr>commit = \<lparr>oid = ''abc123'', committer = makeActor committerLogin,
                 authors = \<lparr>nodes = map makeActor authorLogins\<rparr>\<rparr>\<rparr>"

definition makeReview :: "string \<Rightarrow> string \<Rightarrow> Review" where
  "makeReview l st = \<lparr>state = st, reviewCommit = ''abc123'', author = makeUser l\<rparr>"

definition page :: "'a list \<Rightarrow> string option \<Rightarrow> 'a Connection" where
  "page xs next = \<lparr>nodes = xs, pageInfo = \<lparr>hasNextPage = (next \<noteq> None), endCursor = next\<rparr>\<rparr>"

definition exampleGitHub :: GitHub where
  "exampleGitHub =
     \<lparr>getPullRequest = (\<lambda>input.
        \<lparr>commits = page [makeCommit (Some ''alice'') []] (Some ''c1''),
         reviews = page [makeReview ''bob'' ''APPROVED''] (Some ''r1''),
         assignees = \<lparr>nodes = [makeUser ''carol'']\<rparr>\<rparr>),
      commitsAfter = (\<lambda>input cursor.
        if cursor = ''c1'' then page [makeCommit (Some ''dave'') [Some ''erin'']] (Some ''c2'')
        else if cursor = ''c2'' then page [makeCommit None [Some ''frank'']] None
        else page [] None),
      reviewsAfter = (\<lambda>input cursor.
        if cursor = ''r1'' then page [makeReview ''grace'' ''APPROVED''] None
        else page [] None)\<rparr>"

section \<open>Helper lemmas\<close>

lemmas make_defs = makeInput_def makeUser_def makeActor_def makeCommit_def makeReview_def

lemma present_logins_Nil: "present_logins [] = {}"
  by (simp add: present_logins_def)

lemma present_logins_Cons:
  "present_logins (a # as) =
     (case user a of None \<Rightarrow> {} | Some u \<Rightarrow> {login u}) \<union> present_logins as"
  by (auto simp: present_logins_def split: option.splits)

lemma present_logins_UN:
  "present_logins as = (\<Union>a\<in>set as. case user a of None \<Rightarrow> {} | Some u \<Rightarrow> {login u})"
  by (induction as) (simp_all add: present_logins_Nil present_logins_Cons)

lemma approver_logins_Nil: "approver_logins [] = {}"
  by (simp add: approver_logins_def)

lemma approver_logins_Cons:
  "approver_logins (r # rs) =
     (if state r = ''APPROVED'' then {login (author r)} else {}) \<union> approver_logins rs"
  unfolding approver_logins_def by (cases "state r = ''APPROVED''") auto

lemma set_set_add: "set (set_add s x) = insert x (set s)"
  by (auto simp: set_add_def)

lemma distinct_set_add: "distinct s \<Longrightarrow> distinct (set_add s x)"
  by (simp add: set_add_def)

lemma set_add_authors: "set (add_authors users as) = set users \<union> present_logins as"
proof (induction as arbitrary: users)
  case Nil
  then show ?case by (simp add: present_logins_Nil)
next
  case (Cons a as)
  then show ?case
    by (cases "user a") (auto simp: present_logins_Cons set_set_add)
qed

lemma distinct_add_authors: "distinct users \<Longrightarrow> distinct (add_authors users as)"
  by (induction as arbitrary: users) (auto simp: distinct_set_add split: option.splits)

lemma add_authors_absent: "\<forall>a\<in>set as. user a = None \<Longrightarrow> add_authors users as = users"
  by (induction as arbitrary: users) auto

lemma set_add_commits:
  "set (add_commits users cs) = set users \<union> (\<Union>c\<in>set cs. commit_logins c)"
proof (induction cs arbitrary: users)
  case Nil
  then show ?case by simp
next
  case (Cons c cs)
  then show ?case
    by (cases "user (committer (commit c))")
       (auto simp: commit_logins_def present_logins_Cons set_add_authors set_set_add Let_def)
qed

lemma distinct_add_commits: "distinct users \<Longrightarrow> distinct (add_commits users cs)"
  by (induction cs arbitrary: users)
     (auto simp: distinct_set_add distinct_add_authors Let_def split: option.splits)

lemma add_commits_append:
  "add_commits users (xs @ ys) = add_commits (add_commits users xs) ys"
  by (induction xs arbitrary: users) (auto simp: Let_def)

lemma set_add_approvers: "set (add_approvers users rs) = set users \<union> approver_logins rs"
proof (induction rs arbitrary: users)
  case Nil
  then show ?case by (simp add: approver_logins_Nil)
next
  case (Cons r rs)
  then show ?case
    by (cases "state r = ''APPROVED''") (auto simp: approver_logins_Cons set_set_add)
qed

lemma distinct_add_approvers: "distinct users \<Longrightarrow> distinct (add_approvers users rs)"
  by (induction rs arbitrary: users) (auto simp: distinct_set_add)

lemma set_add_assignees: "set (add_assignees users as) = set users \<union> login ` set as"
  by (induction as arbitrary: users) (auto simp: set_set_add)

lemma distinct_add_assignees: "distinct users \<Longrightarrow> distinct (add_assignees users as)"
  by (induction as arbitrary: users) (auto simp: distinct_set_add)

text \<open>The candidate set is the union of the three sources, the approvers only for a closed pull request.\<close>

lemma set_collectUsersToNotify:
  "set (collectUsersToNotify input cs rs as) =
     (\<Union>c\<in>set cs. commit_logins c)
     \<union> (if eventName input = ''pull_request'' \<and> eventAction input = ''closed''
        then approver_logins rs else {})
     \<union> login ` set as"
  by (simp add: collectUsersToNotify_def Let_def set_add_assignees set_add_approvers
      set_add_commits)

lemma distinct_collectUsersToNotify: "distinct (collectUsersToNotify input cs rs as)"
  by (simp add: collectUsersToNotify_def Let_def distinct_add_assignees distinct_add_approvers
      distinct_add_commits)

text \<open>What one commit contributes, and how often a member of a duplicate-free list occurs.\<close>

lemma commit_logins_cases:
  "commit_logins c =
      (case user (committer (commit c)) of None \<Rightarrow> {} | Some u \<Rightarrow> {login u})
        \<union> (\<Union>a\<in>set (nodes (authors (commit c))).
             case user a of None \<Rightarrow> {} | Some u \<Rightarrow> {login u})"
  by (simp add: commit_logins_def present_logins_Cons present_logins_UN)

lemma distinct_count_list:
  "distinct xs \<Longrightarrow> count_list xs x = (if x \<in> set xs then 1 else 0)"
  by (induction xs) auto

text \<open>\<open>startsWith\<close> and \<open>includes_str\<close> decide the prefix and the substring relation.\<close>

lemma startsWith_iff: "startsWith s p \<longleftrightarrow> (\<exists>b. s = p @ b)"
  by (induction s p rule: startsWith.induct) auto

lemma includes_str_iff: "includes_str s p \<longleftrightarrow> (\<exists>a b. s = a @ p @ b)"
proof (induction s)
  case Nil
  then show ?case by (auto simp: startsWith_iff)
next
  case (Cons c cs)
  show ?case
  proof
    assume "includes_str (c # cs) p"
    then consider "startsWith (c # cs) p" | "includes_str cs p" by auto
    then show "\<exists>a b. c # cs = a @ p @ b"
    proof cases
      case 1
      then obtain b where "c # cs = p @ b" unfolding startsWith_iff by blast
      then have "c # cs = [] @ p @ b" by simp
      then show ?thesis by blast
    next
      case 2
      then obtain a b where "cs = a @ p @ b" using Cons.IH by blast
      then have "c # cs = (c # a) @ p @ b" by simp
      then show ?thesis by blast
    qed
  next
    assume "\<exists>a b. c # cs = a @ p @ b"
    then obtain a b where ab: "c # cs = a @ p @ b" by blast
    show "includes_str (c # cs) p"
    proof (cases a)
      case Nil
      with ab have "startsWith (c # cs) p" unfolding startsWith_iff by auto
      then show ?thesis by simp
    next
      case (Cons a0 a')
      with ab have "cs = a' @ p @ b" by simp
      then have "includes_str cs p" using Cons.IH by blast
      then show ?thesis by simp
    qed
  qed
qed

text \<open>The mentions of a non-empty list: the first one, then each further one after a space.\<close>

lemma join_mentions:
  "join (map (\<lambda>u. ''@'' @ u) (u # us)) '' '' = ''@'' @ u @ concat (map (\<lambda>v. '' @'' @ v) us)"
  by (induction us arbitrary: u) auto

text \<open>
  Following the cursors from a first page collects the records of that page and of every
  page beyond it, and returns.
\<close>

lemma listPages_complete:
  "further_pages fetch (pageInfo (fetch c)) ps \<Longrightarrow>
     listPages fetch c = Some (nodes (fetch c) @ concat (map nodes ps))"
proof (induction ps arbitrary: c)
  case Nil
  then show ?case by (subst listPages.simps) (auto simp: Let_def)
next
  case (Cons p ps)
  from Cons.prems
  have more: "hasNextPage (pageInfo (fetch c))" "truthy (endCursor (pageInfo (fetch c)))"
    and p: "fetch (the (endCursor (pageInfo (fetch c)))) = p"
    and rest: "further_pages fetch (pageInfo p) ps"
    by simp_all
  from rest p have "listPages fetch (the (endCursor (pageInfo (fetch c))))
      = Some (nodes p @ concat (map nodes ps))"
    using Cons.IH [of "the (endCursor (pageInfo (fetch c)))"] by simp
  with more show ?case by (subst listPages.simps) (simp add: Let_def)
qed

lemma paginate_complete:
  assumes "further_pages fetch (pageInfo first) ps"
  shows "(if hasNextPage (pageInfo first) \<and> truthy (endCursor (pageInfo first))
      then Option.bind (listPages fetch (the (endCursor (pageInfo first))))
             (\<lambda>additional. Some (nodes first @ additional))
      else Some (nodes first)) = Some (nodes first @ concat (map nodes ps))"
proof (cases ps)
  case Nil
  with assms show ?thesis by auto
next
  case (Cons p qs)
  with assms
  have more: "hasNextPage (pageInfo first) \<and> truthy (endCursor (pageInfo first))"
    and p: "fetch (the (endCursor (pageInfo first))) = p"
    and rest: "further_pages fetch (pageInfo p) qs"
    by simp_all
  from p rest have "listPages fetch (the (endCursor (pageInfo first)))
      = Some (nodes p @ concat (map nodes qs))"
    using listPages_complete [of fetch "the (endCursor (pageInfo first))" qs] by simp
  with more Cons show ?thesis by simp
qed

section \<open>The tests of the repository\<close>

lemma collectUsersToNotify_tests:
  "collectUsersToNotify makeInput [makeCommit (Some ''committer1'') []] [] [] = [''committer1'']
   \<and> collectUsersToNotify makeInput [makeCommit None [Some ''author1'', Some ''author2'']] [] []
      = [''author1'', ''author2'']
   \<and> collectUsersToNotify makeInput
        [makeCommit (Some ''committer1'') [Some ''author1'', Some ''author2'']] [] []
      = [''committer1'', ''author1'', ''author2'']
   \<and> collectUsersToNotify makeInput [] [] [makeUser ''assignee1''] = [''assignee1'']"
  by (simp add: make_defs collectUsersToNotify_def set_add_def)

lemma filterUsers_tests:
  "filterUsers [''actor'', ''other''] ''actor'' [] = [''other'']
   \<and> filterUsers [''dependabot[bot]'', ''user1''] ''actor'' [] = [''user1'']
   \<and> filterUsers [''ci-bot'', ''user1''] ''actor'' [''ci-bot''] = [''user1'']
   \<and> filterUsers [''user1'', ''user2''] ''actor'' [] = [''user1'', ''user2'']"
  by (simp add: filterUsers_def set_has_def)

lemma formatComment_tests:
  "formatComment [''user1'', ''user2''] makeInput = ''@user1 @user2 Merged the pull request.''
   \<and> formatComment [''user1''] (makeInput\<lparr>prMerged := False\<rparr>)
      = ''@user1 Closed the pull request.''
   \<and> formatComment [''user1'']
        (makeInput\<lparr>eventName := ''pull_request_review'', reviewState := ''approved''\<rparr>)
      = ''@user1 The pull request was approved.''
   \<and> formatComment [''user1'']
        (makeInput\<lparr>eventName := ''pull_request_review'', reviewState := ''changes_requested''\<rparr>)
      = ''@user1 Changes were requested.''
   \<and> formatComment [''user1'']
        (makeInput\<lparr>eventName := ''pull_request_review'', reviewState := ''commented''\<rparr>)
      = ''@user1 A comment was left on the pull request.''"
  by (simp add: formatComment_def makeInput_def)

section \<open>The claims\<close>

subsection \<open>C1: approvers are collected only for a closed pull request\<close>

text \<open>
  Claim C1. The review loop of \<open>collectUsersToNotify\<close> adds a review author exactly when
  \<open>eventName\<close> is \<^verbatim>\<open>pull_request\<close>, \<open>eventAction\<close> is \<^verbatim>\<open>closed\<close> and the state of the review is
  exactly \<^verbatim>\<open>APPROVED\<close>: the candidate set is the one obtained with no reviews at all,
  joined with the authors of the \<^verbatim>\<open>APPROVED\<close> reviews when both event conditions hold and
  with nothing otherwise. When one of the two event conditions fails, and so for every
  \<^verbatim>\<open>pull_request_review\<close> event whatever its action, the result is the very list obtained
  with no reviews.
\<close>

theorem collect_approvers_only_when_closed:
  "set (collectUsersToNotify input cs rs as) =
     set (collectUsersToNotify input cs [] as)
     \<union> (if eventName input = ''pull_request'' \<and> eventAction input = ''closed''
        then {login (author r) | r. r \<in> set rs \<and> state r = ''APPROVED''} else {})
   \<and> (\<not> (eventName input = ''pull_request'' \<and> eventAction input = ''closed'')
        \<longrightarrow> collectUsersToNotify input cs rs as = collectUsersToNotify input cs [] as)
   \<and> (eventName input = ''pull_request_review''
        \<longrightarrow> collectUsersToNotify input cs rs as = collectUsersToNotify input cs [] as)"
proof (intro conjI impI)
  show "set (collectUsersToNotify input cs rs as) =
     set (collectUsersToNotify input cs [] as)
     \<union> (if eventName input = ''pull_request'' \<and> eventAction input = ''closed''
        then {login (author r) | r. r \<in> set rs \<and> state r = ''APPROVED''} else {})"
    unfolding set_collectUsersToNotify approver_logins_def by auto
next
  assume "\<not> (eventName input = ''pull_request'' \<and> eventAction input = ''closed'')"
  then show "collectUsersToNotify input cs rs as = collectUsersToNotify input cs [] as"
    unfolding collectUsersToNotify_def by (simp only: if_False)
next
  assume "eventName input = ''pull_request_review''"
  then show "collectUsersToNotify input cs rs as = collectUsersToNotify input cs [] as"
    by (simp add: collectUsersToNotify_def)
qed

text \<open>
  The test "does not collect approvers for pull_request_review events", and a closed
  pull request with one \<^verbatim>\<open>APPROVED\<close> and one lower-case \<^verbatim>\<open>approved\<close> review.
\<close>

theorem collect_approvers_only_when_closed_witness:
  "collectUsersToNotify
      (makeInput\<lparr>eventName := ''pull_request_review'', eventAction := ''submitted''\<rparr>)
      [] [makeReview ''approver1'' ''APPROVED''] [] = []
   \<and> set (collectUsersToNotify makeInput []
        [makeReview ''approver1'' ''APPROVED'', makeReview ''user2'' ''approved''] [])
      = {''approver1''}"
  using collect_approvers_only_when_closed
      [of "makeInput\<lparr>eventName := ''pull_request_review'', eventAction := ''submitted''\<rparr>"
        "[]" "[makeReview ''approver1'' ''APPROVED'']" "[]"]
    collect_approvers_only_when_closed [of makeInput "[]"
      "[makeReview ''approver1'' ''APPROVED'', makeReview ''user2'' ''approved'']" "[]"]
  by (simp add: make_defs collectUsersToNotify_def set_add_def)

subsection \<open>C2: every page of commits and of reviews reaches the collector\<close>

text \<open>
  Claim C2. Whatever the number of pages: when \<open>cps\<close> are the pages of commits that exist
  beyond the first one and \<open>rps\<close> those of reviews (each page but the last reporting
  \<^verbatim>\<open>hasNextPage\<close> with a cursor), the run returns, the commits it hands to the collector
  are the records of the first page followed by those of every further page, likewise
  the reviews, and its outcome is the one computed from these complete lists.
\<close>

theorem run_fetches_every_page:
  assumes "further_pages (commitsAfter gh input)
             (pageInfo (commits (getPullRequest gh input))) cps"
    and "further_pages (reviewsAfter gh input)
             (pageInfo (reviews (getPullRequest gh input))) rps"
  shows "paginateCommits gh input (getPullRequest gh input)
           = Some (nodes (commits (getPullRequest gh input)) @ concat (map nodes cps))
       \<and> paginateReviews gh input (getPullRequest gh input)
           = Some (nodes (reviews (getPullRequest gh input)) @ concat (map nodes rps))
       \<and> run gh input
           = Some (notify input
               (nodes (commits (getPullRequest gh input)) @ concat (map nodes cps))
               (nodes (reviews (getPullRequest gh input)) @ concat (map nodes rps))
               (nodes (assignees (getPullRequest gh input))))"
proof -
  have c: "paginateCommits gh input (getPullRequest gh input)
           = Some (nodes (commits (getPullRequest gh input)) @ concat (map nodes cps))"
    unfolding paginateCommits_def listCommits_def using assms(1) by (rule paginate_complete)
  have r: "paginateReviews gh input (getPullRequest gh input)
           = Some (nodes (reviews (getPullRequest gh input)) @ concat (map nodes rps))"
    unfolding paginateReviews_def listReviews_def using assms(2) by (rule paginate_complete)
  from c r show ?thesis by (simp add: run_def Let_def)
qed

text \<open>Three pages of commits and two pages of reviews, all of them collected.\<close>

theorem run_fetches_every_page_witness:
  "paginateCommits exampleGitHub makeInput (getPullRequest exampleGitHub makeInput)
     = Some [makeCommit (Some ''alice'') [], makeCommit (Some ''dave'') [Some ''erin''],
             makeCommit None [Some ''frank'']]
   \<and> paginateReviews exampleGitHub makeInput (getPullRequest exampleGitHub makeInput)
     = Some [makeReview ''bob'' ''APPROVED'', makeReview ''grace'' ''APPROVED'']
   \<and> run exampleGitHub (makeInput\<lparr>actor := ''alice''\<rparr>)
     = Some (CommentPosted ''@dave @erin @frank @bob @grace @carol Merged the pull request.'')"
  using run_fetches_every_page [of exampleGitHub makeInput
      "[page [makeCommit (Some ''dave'') [Some ''erin'']] (Some ''c2''),
        page [makeCommit None [Some ''frank'']] None]"
      "[page [makeReview ''grace'' ''APPROVED''] None]"]
    run_fetches_every_page [of exampleGitHub "makeInput\<lparr>actor := ''alice''\<rparr>"
      "[page [makeCommit (Some ''dave'') [Some ''erin'']] (Some ''c2''),
        page [makeCommit None [Some ''frank'']] None]"
      "[page [makeReview ''grace'' ''APPROVED''] None]"]
  by (simp add: exampleGitHub_def page_def make_defs notify_def collectUsersToNotify_def
      set_add_def filterUsers_def set_has_def formatComment_def)

subsection \<open>C3: the sentence for any other event\<close>

text \<open>
  As the claim words it, the sentence for an event other than \<^verbatim>\<open>pull_request\<close> and
  \<^verbatim>\<open>pull_request_review\<close> ends in a period. For the event \<^verbatim>\<open>push\<close> with action \<^verbatim>\<open>opened\<close>
  the comment is not the one with the period.
\<close>

theorem formatComment_other_event_period_counterexample:
  "formatComment [''user1''] (makeInput\<lparr>eventName := ''push'', eventAction := ''opened''\<rparr>)
     \<noteq> ''@user1 Event: push/opened.''"
  by (simp add: formatComment_def makeInput_def)

text \<open>
  Claim C3, amended. For every input whose \<open>eventName\<close> is neither \<^verbatim>\<open>pull_request\<close> nor
  \<^verbatim>\<open>pull_request_review\<close>, the action sentence is exactly
  \<^verbatim>\<open>Event: {eventName}/{eventAction}\<close>, with no trailing period, and the output is the
  space-joined mentions, a single space, then that sentence.
\<close>

theorem formatComment_other_event:
  "eventName input \<noteq> ''pull_request'' \<Longrightarrow> eventName input \<noteq> ''pull_request_review'' \<Longrightarrow>
     formatComment users input =
       join (map (\<lambda>u. ''@'' @ u) users) '' '' @ '' '' @
       ''Event: '' @ eventName input @ ''/'' @ eventAction input"
  by (simp add: formatComment_def)

theorem formatComment_other_event_witness:
  "formatComment [''user1'', ''user2'']
      (makeInput\<lparr>eventName := ''push'', eventAction := ''opened''\<rparr>)
     = ''@user1 @user2 Event: push/opened''"
  using formatComment_other_event
      [of "makeInput\<lparr>eventName := ''push'', eventAction := ''opened''\<rparr>"
        "[''user1'', ''user2'']"]
  by (simp add: makeInput_def)

subsection \<open>C4: what the filter keeps\<close>

text \<open>
  Claim C4. For every candidate set, actor and set of machine users, \<open>filterUsers\<close>
  returns the candidates, in their insertion order, that differ from the actor, do not
  contain \<^verbatim>\<open>[bot]\<close> anywhere and are not machine users, and nothing else; it is total,
  and the empty set gives the empty list.
\<close>

theorem filterUsers_keeps_exactly:
  "filterUsers users actor' machineUsers' =
     filter (\<lambda>u. u \<noteq> actor' \<and> \<not> (\<exists>a b. u = a @ ''[bot]'' @ b) \<and> u \<notin> set machineUsers')
       users
   \<and> filterUsers [] actor' machineUsers' = []"
proof -
  have "(\<lambda>login'. if login' = actor' then False
                  else if includes_str login' ''[bot]'' then False
                  else if set_has machineUsers' login' then False
                  else True)
      = (\<lambda>u. u \<noteq> actor' \<and> \<not> (\<exists>a b. u = a @ ''[bot]'' @ b) \<and> u \<notin> set machineUsers')"
    by (intro ext) (simp only: includes_str_iff set_has_def if_False if_True split: if_split, blast)
  then show ?thesis by (simp only: filterUsers_def filter.simps simp_thms)
qed

subsection \<open>C5: the comment for a non-empty list of users\<close>

text \<open>
  As the claim words it, the sentence follows the table of section 4.3 for every input.
  For the event \<^verbatim>\<open>issue_comment\<close> the comment is not the mentions followed by the sentence
  of that table.
\<close>

theorem formatComment_table_counterexample:
  "formatComment [''user1'', ''user2'']
      (makeInput\<lparr>eventName := ''issue_comment'', eventAction := ''created''\<rparr>)
     \<noteq> ''@user1 @user2 '' @
        spec_table_sentence
          (makeInput\<lparr>eventName := ''issue_comment'', eventAction := ''created''\<rparr>)"
  by (simp add: formatComment_def spec_table_sentence_def makeInput_def)

text \<open>
  Claim C5, amended. For every non-empty user list the comment is \<^verbatim>\<open>@u1 @u2 ... @uN\<close>, a
  single space, then the sentence. For \<^verbatim>\<open>pull_request\<close> the merged flag is checked before
  the action: merged gives \<^verbatim>\<open>Merged the pull request.\<close> also when the action is \<^verbatim>\<open>closed\<close>,
  not merged with action \<^verbatim>\<open>closed\<close> gives \<^verbatim>\<open>Closed the pull request.\<close>, anything else
  \<^verbatim>\<open>Pull request {eventAction}.\<close>; for \<^verbatim>\<open>pull_request_review\<close> the states \<^verbatim>\<open>approved\<close>,
  \<^verbatim>\<open>changes_requested\<close> and \<^verbatim>\<open>commented\<close> give their sentences and any other state
  \<^verbatim>\<open>A review was submitted.\<close>; for any other event the sentence is
  \<^verbatim>\<open>Event: {eventName}/{eventAction}\<close> without a trailing period.
\<close>

theorem formatComment_mentions_sentence:
  "formatComment (u # us) input =
     ''@'' @ u @ concat (map (\<lambda>v. '' @'' @ v) us) @ '' '' @
     (if eventName input = ''pull_request'' then
        (if prMerged input then ''Merged the pull request.''
         else if eventAction input = ''closed'' then ''Closed the pull request.''
         else ''Pull request '' @ eventAction input @ ''.'')
      else if eventName input = ''pull_request_review'' then
        (if reviewState input = ''approved'' then ''The pull request was approved.''
         else if reviewState input = ''changes_requested'' then ''Changes were requested.''
         else if reviewState input = ''commented''
           then ''A comment was left on the pull request.''
         else ''A review was submitted.'')
      else ''Event: '' @ eventName input @ ''/'' @ eventAction input)"
  unfolding formatComment_def Let_def join_mentions by (simp only: append_assoc)

subsection \<open>C6: the candidate set is a set union\<close>

text \<open>
  Claim C6. The result of \<open>collectUsersToNotify\<close> is a pure set union: its members are
  exactly the logins of the present committers and commit authors, of the authors of
  \<^verbatim>\<open>APPROVED\<close> reviews when the pull request is closed, and of the assignees. So the
  members are the same for any permutation of the commits, of the reviews and of the
  assignees; and every username that some source contributes occurs exactly once in
  the result, however many sources contribute it, and no other username occurs at all.
\<close>

theorem collect_order_invariant_distinct:
  "mset cs = mset cs' \<Longrightarrow> mset rs = mset rs' \<Longrightarrow> mset as = mset as' \<Longrightarrow>
     set (collectUsersToNotify input cs rs as) = set (collectUsersToNotify input cs' rs' as')
     \<and> distinct (collectUsersToNotify input cs rs as)
     \<and> set (collectUsersToNotify input cs rs as) =
         (\<Union>c\<in>set cs.
            (case user (committer (commit c)) of None \<Rightarrow> {} | Some u \<Rightarrow> {login u})
            \<union> (\<Union>a\<in>set (nodes (authors (commit c))).
                 case user a of None \<Rightarrow> {} | Some u \<Rightarrow> {login u}))
         \<union> (if eventName input = ''pull_request'' \<and> eventAction input = ''closed''
            then {login (author r) | r. r \<in> set rs \<and> state r = ''APPROVED''} else {})
         \<union> login ` set as
     \<and> (\<forall>x. count_list (collectUsersToNotify input cs rs as) x =
           (if x \<in> (\<Union>c\<in>set cs.
                      (case user (committer (commit c)) of None \<Rightarrow> {} | Some u \<Rightarrow> {login u})
                      \<union> (\<Union>a\<in>set (nodes (authors (commit c))).
                           case user a of None \<Rightarrow> {} | Some u \<Rightarrow> {login u}))
                   \<union> (if eventName input = ''pull_request'' \<and> eventAction input = ''closed''
                      then {login (author r) | r. r \<in> set rs \<and> state r = ''APPROVED''}
                      else {})
                   \<union> login ` set as
            then 1 else 0))"
proof -
  assume "mset cs = mset cs'" "mset rs = mset rs'" "mset as = mset as'"
  then have "set cs = set cs'" "set rs = set rs'" "set as = set as'"
    by (auto dest: mset_eq_setD)
  then have perm: "set (collectUsersToNotify input cs rs as)
      = set (collectUsersToNotify input cs' rs' as')"
    by (simp add: set_collectUsersToNotify approver_logins_def)
  have dist: "distinct (collectUsersToNotify input cs rs as)"
    by (rule distinct_collectUsersToNotify)
  have union: "set (collectUsersToNotify input cs rs as) =
         (\<Union>c\<in>set cs.
            (case user (committer (commit c)) of None \<Rightarrow> {} | Some u \<Rightarrow> {login u})
            \<union> (\<Union>a\<in>set (nodes (authors (commit c))).
                 case user a of None \<Rightarrow> {} | Some u \<Rightarrow> {login u}))
         \<union> (if eventName input = ''pull_request'' \<and> eventAction input = ''closed''
            then {login (author r) | r. r \<in> set rs \<and> state r = ''APPROVED''} else {})
         \<union> login ` set as"
    by (simp add: set_collectUsersToNotify approver_logins_def commit_logins_cases)
  have "count_list (collectUsersToNotify input cs rs as) x =
      (if x \<in> set (collectUsersToNotify input cs rs as) then 1 else 0)" for x
    using dist by (rule distinct_count_list)
  then have count: "\<forall>x. count_list (collectUsersToNotify input cs rs as) x =
           (if x \<in> (\<Union>c\<in>set cs.
                      (case user (committer (commit c)) of None \<Rightarrow> {} | Some u \<Rightarrow> {login u})
                      \<union> (\<Union>a\<in>set (nodes (authors (commit c))).
                           case user a of None \<Rightarrow> {} | Some u \<Rightarrow> {login u}))
                   \<union> (if eventName input = ''pull_request'' \<and> eventAction input = ''closed''
                      then {login (author r) | r. r \<in> set rs \<and> state r = ''APPROVED''}
                      else {})
                   \<union> login ` set as
            then 1 else 0)"
    unfolding union by blast
  from perm dist union count show ?thesis by (intro conjI)
qed

text \<open>
  The test "deduplicates users": a username that is committer, co-author and assignee
  at once occurs exactly once; and the sources of a closed pull request in two orders.
\<close>

theorem collect_order_invariant_distinct_witness:
  "collectUsersToNotify makeInput [makeCommit (Some ''user1'') [Some ''user1'']] []
      [makeUser ''user1''] = [''user1'']
   \<and> count_list (collectUsersToNotify makeInput [makeCommit (Some ''user1'') [Some ''user1'']] []
      [makeUser ''user1'']) ''user1'' = 1
   \<and> set (collectUsersToNotify makeInput
        [makeCommit (Some ''alice'') [Some ''bob''], makeCommit (Some ''bob'') []]
        [makeReview ''carol'' ''APPROVED'', makeReview ''alice'' ''APPROVED'']
        [makeUser ''dave'', makeUser ''carol''])
      = set (collectUsersToNotify makeInput
        [makeCommit (Some ''bob'') [], makeCommit (Some ''alice'') [Some ''bob'']]
        [makeReview ''alice'' ''APPROVED'', makeReview ''carol'' ''APPROVED'']
        [makeUser ''carol'', makeUser ''dave''])
   \<and> set (collectUsersToNotify makeInput
        [makeCommit (Some ''alice'') [Some ''bob''], makeCommit (Some ''bob'') []]
        [makeReview ''carol'' ''APPROVED'', makeReview ''alice'' ''APPROVED'']
        [makeUser ''dave'', makeUser ''carol''])
      = {''alice'', ''bob'', ''carol'', ''dave''}
   \<and> distinct (collectUsersToNotify makeInput
        [makeCommit (Some ''alice'') [Some ''bob''], makeCommit (Some ''bob'') []]
        [makeReview ''carol'' ''APPROVED'', makeReview ''alice'' ''APPROVED'']
        [makeUser ''dave'', makeUser ''carol''])"
proof -
  have dedup: "collectUsersToNotify makeInput [makeCommit (Some ''user1'') [Some ''user1'']] []
      [makeUser ''user1''] = [''user1'']"
    by (simp add: make_defs collectUsersToNotify_def set_add_def)
  have one: "count_list (collectUsersToNotify makeInput
      [makeCommit (Some ''user1'') [Some ''user1'']] [] [makeUser ''user1'']) ''user1'' = 1"
    using collect_order_invariant_distinct
      [of "[makeCommit (Some ''user1'') [Some ''user1'']]"
        "[makeCommit (Some ''user1'') [Some ''user1'']]" "[]" "[]"
        "[makeUser ''user1'']" "[makeUser ''user1'']" makeInput]
    by (simp add: make_defs)
  have c: "mset [makeCommit (Some ''alice'') [Some ''bob''], makeCommit (Some ''bob'') []]
      = mset [makeCommit (Some ''bob'') [], makeCommit (Some ''alice'') [Some ''bob'']]"
    by (simp add: add_mset_commute)
  have r: "mset [makeReview ''carol'' ''APPROVED'', makeReview ''alice'' ''APPROVED'']
      = mset [makeReview ''alice'' ''APPROVED'', makeReview ''carol'' ''APPROVED'']"
    by (simp add: add_mset_commute)
  have a: "mset [makeUser ''dave'', makeUser ''carol'']
      = mset [makeUser ''carol'', makeUser ''dave'']"
    by (simp add: add_mset_commute)
  have members: "set (collectUsersToNotify makeInput
        [makeCommit (Some ''alice'') [Some ''bob''], makeCommit (Some ''bob'') []]
        [makeReview ''carol'' ''APPROVED'', makeReview ''alice'' ''APPROVED'']
        [makeUser ''dave'', makeUser ''carol''])
      = {''alice'', ''bob'', ''carol'', ''dave''}"
    by (simp add: make_defs collectUsersToNotify_def set_add_def)
  from collect_order_invariant_distinct [OF c r a, of makeInput] dedup one members
  show ?thesis by (simp only: simp_thms)
qed

subsection \<open>C7: absent identities are skipped\<close>

text \<open>
  Claim C7. For every input, the candidate set is the union of what each source
  contributes, where an absent committer and an absent commit author contribute the
  empty set; the function is total, its result is a list of usernames, and a commit
  whose committer and authors are all absent can be removed from the input without
  changing the result.
\<close>

theorem collect_absent_identities_skipped:
  "set (collectUsersToNotify input cs rs as) =
     (\<Union>c\<in>set cs.
        (case user (committer (commit c)) of None \<Rightarrow> {} | Some u \<Rightarrow> {login u})
        \<union> (\<Union>a\<in>set (nodes (authors (commit c))).
             case user a of None \<Rightarrow> {} | Some u \<Rightarrow> {login u}))
     \<union> (if eventName input = ''pull_request'' \<and> eventAction input = ''closed''
        then {login (author r) | r. r \<in> set rs \<and> state r = ''APPROVED''} else {})
     \<union> login ` set as
   \<and> (user (committer (commit c0)) = None
        \<and> (\<forall>a\<in>set (nodes (authors (commit c0))). user a = None)
      \<longrightarrow> collectUsersToNotify input (cs @ c0 # cs') rs as
          = collectUsersToNotify input (cs @ cs') rs as)"
proof (intro conjI impI)
  have "commit_logins c =
      (case user (committer (commit c)) of None \<Rightarrow> {} | Some u \<Rightarrow> {login u})
        \<union> (\<Union>a\<in>set (nodes (authors (commit c))).
             case user a of None \<Rightarrow> {} | Some u \<Rightarrow> {login u})" for c
    by (simp add: commit_logins_def present_logins_Cons present_logins_UN)
  then show "set (collectUsersToNotify input cs rs as) =
     (\<Union>c\<in>set cs.
        (case user (committer (commit c)) of None \<Rightarrow> {} | Some u \<Rightarrow> {login u})
        \<union> (\<Union>a\<in>set (nodes (authors (commit c))).
             case user a of None \<Rightarrow> {} | Some u \<Rightarrow> {login u}))
     \<union> (if eventName input = ''pull_request'' \<and> eventAction input = ''closed''
        then {login (author r) | r. r \<in> set rs \<and> state r = ''APPROVED''} else {})
     \<union> login ` set as"
    by (simp add: set_collectUsersToNotify approver_logins_def)
next
  assume h: "user (committer (commit c0)) = None
        \<and> (\<forall>a\<in>set (nodes (authors (commit c0))). user a = None)"
  then have "add_commits users (c0 # rest) = add_commits users rest" for users rest
    by (simp add: add_authors_absent)
  then have "add_commits [] (cs @ c0 # cs') = add_commits [] (cs @ cs')"
    by (simp only: add_commits_append)
  then show "collectUsersToNotify input (cs @ c0 # cs') rs as
          = collectUsersToNotify input (cs @ cs') rs as"
    by (simp add: collectUsersToNotify_def Let_def)
qed

text \<open>
  The test "skips null users", and a commit of absent identities between two commits
  with present ones.
\<close>

theorem collect_absent_identities_skipped_witness:
  "collectUsersToNotify makeInput [makeCommit None [None]] [] [] = []
   \<and> collectUsersToNotify makeInput
        [makeCommit (Some ''alice'') [], makeCommit None [None, None],
         makeCommit None [Some ''bob'']]
        [] []
      = [''alice'', ''bob'']"
  using collect_absent_identities_skipped
      [of makeInput "[]" "[]" "[]" "makeCommit None [None]" "[]"]
    collect_absent_identities_skipped
      [of makeInput "[makeCommit (Some ''alice'') []]" "[]" "[]"
        "makeCommit None [None, None]" "[makeCommit None [Some ''bob'']]"]
  by (simp add: make_defs collectUsersToNotify_def set_add_def)

subsection \<open>C8: the comment for the empty list of users\<close>

text \<open>
  As the claim words it, the comment for the empty list is a space followed by the
  sentence of the table of section 4.3, for every context. For the event
  \<^verbatim>\<open>workflow_dispatch\<close> it is not.
\<close>

theorem formatComment_empty_table_counterexample:
  "formatComment [] (makeInput\<lparr>eventName := ''workflow_dispatch'', eventAction := ''''\<rparr>)
     \<noteq> '' '' @
        spec_table_sentence (makeInput\<lparr>eventName := ''workflow_dispatch'', eventAction := ''''\<rparr>)"
  by (simp add: formatComment_def spec_table_sentence_def makeInput_def)

text \<open>
  Claim C8, amended. For the empty user list and every context, the comment is an empty
  mention prefix, a single space, then the action sentence: the sentence of the table
  of section 4.3 for \<^verbatim>\<open>pull_request\<close> and \<^verbatim>\<open>pull_request_review\<close>, and
  \<^verbatim>\<open>Event: {eventName}/{eventAction}\<close> without a trailing period for any other event.
\<close>

theorem formatComment_empty:
  "formatComment [] input =
     '' '' @
     (if eventName input = ''pull_request'' then
        (if prMerged input then ''Merged the pull request.''
         else if eventAction input = ''closed'' then ''Closed the pull request.''
         else ''Pull request '' @ eventAction input @ ''.'')
      else if eventName input = ''pull_request_review'' then
        (if reviewState input = ''approved'' then ''The pull request was approved.''
         else if reviewState input = ''changes_requested'' then ''Changes were requested.''
         else if reviewState input = ''commented''
           then ''A comment was left on the pull request.''
         else ''A review was submitted.'')
      else ''Event: '' @ eventName input @ ''/'' @ eventAction input)"
  by (simp add: formatComment_def)

subsection \<open>C9: the comment depends on four fields of the input only\<close>

text \<open>
  Claim C9. Two inputs that agree on \<open>eventName\<close>, \<open>eventAction\<close>, \<open>prMerged\<close> and
  \<open>reviewState\<close> give the same comment for the same user list, whatever their token,
  repository owner and name, pull request number, machine users and actor.
\<close>

theorem formatComment_depends_on_event_fields:
  "eventName a = eventName b \<Longrightarrow> eventAction a = eventAction b \<Longrightarrow>
   prMerged a = prMerged b \<Longrightarrow> reviewState a = reviewState b \<Longrightarrow>
     formatComment users a = formatComment users b"
  by (simp add: formatComment_def)

theorem formatComment_depends_on_event_fields_witness:
  "formatComment [''user1'']
      (makeInput\<lparr>githubToken := ''ghs_secret'', repositoryOwner := ''o2'',
         repositoryName := ''r2'', pullRequestNumber := 42, machineUsers := [''ci-bot''],
         actor := ''someone''\<rparr>)
     = formatComment [''user1''] makeInput
   \<and> formatComment [''user1''] makeInput = ''@user1 Merged the pull request.''"
  using formatComment_depends_on_event_fields
      [of "makeInput\<lparr>githubToken := ''ghs_secret'', repositoryOwner := ''o2'',
         repositoryName := ''r2'', pullRequestNumber := 42, machineUsers := [''ci-bot''],
         actor := ''someone''\<rparr>" makeInput "[''user1'']"]
  by (simp add: makeInput_def formatComment_def)

subsection \<open>C10: the collector adds nothing of its own\<close>

text \<open>
  Claim C10. Every username in the result of \<open>collectUsersToNotify\<close> is the login of a
  present committer, of a present commit author, of the author of a review whose state
  is \<^verbatim>\<open>APPROVED\<close>, or of an assignee of the inputs; and the result does not depend on the
  actor or the machine users of the context.
\<close>

theorem collect_no_junk:
  "(x \<in> set (collectUsersToNotify input cs rs as) \<longrightarrow>
      (\<exists>c\<in>set cs. \<exists>u. user (committer (commit c)) = Some u \<and> login u = x)
    \<or> (\<exists>c\<in>set cs. \<exists>a\<in>set (nodes (authors (commit c))). \<exists>u. user a = Some u \<and> login u = x)
    \<or> (\<exists>r\<in>set rs. state r = ''APPROVED'' \<and> login (author r) = x)
    \<or> (\<exists>a\<in>set as. login a = x))
   \<and> collectUsersToNotify (input\<lparr>actor := actor', machineUsers := machineUsers'\<rparr>) cs rs as
      = collectUsersToNotify input cs rs as"
proof (intro conjI impI)
  assume "x \<in> set (collectUsersToNotify input cs rs as)"
  then consider (c) "x \<in> (\<Union>c\<in>set cs. commit_logins c)" | (r) "x \<in> approver_logins rs"
    | (a) "x \<in> login ` set as"
    unfolding set_collectUsersToNotify by (auto split: if_splits)
  then show "(\<exists>c\<in>set cs. \<exists>u. user (committer (commit c)) = Some u \<and> login u = x)
    \<or> (\<exists>c\<in>set cs. \<exists>a\<in>set (nodes (authors (commit c))). \<exists>u. user a = Some u \<and> login u = x)
    \<or> (\<exists>r\<in>set rs. state r = ''APPROVED'' \<and> login (author r) = x)
    \<or> (\<exists>a\<in>set as. login a = x)"
  proof cases
    case c
    then obtain c' where c': "c' \<in> set cs" "x \<in> commit_logins c'" by blast
    then obtain u a where ua: "x = login u" "user a = Some u"
        "a = committer (commit c') \<or> a \<in> set (nodes (authors (commit c')))"
      unfolding commit_logins_def present_logins_def by auto
    from ua(3) show ?thesis
    proof
      assume "a = committer (commit c')"
      with c'(1) ua(1,2) show ?thesis by blast
    next
      assume "a \<in> set (nodes (authors (commit c')))"
      with c'(1) ua(1,2) show ?thesis by blast
    qed
  next
    case r
    then show ?thesis unfolding approver_logins_def by blast
  next
    case a
    then show ?thesis by blast
  qed
next
  show "collectUsersToNotify (input\<lparr>actor := actor', machineUsers := machineUsers'\<rparr>) cs rs as
      = collectUsersToNotify input cs rs as"
    by (simp add: collectUsersToNotify_def)
qed

text \<open>
  An approver of a closed pull request is in the result and comes from the reviews; an
  actor and machine users set in the context add nobody.
\<close>

theorem collect_no_junk_witness:
  "''bob'' \<in> set (collectUsersToNotify makeInput [] [makeReview ''bob'' ''APPROVED''] [])
   \<and> (\<exists>r\<in>set [makeReview ''bob'' ''APPROVED'']. state r = ''APPROVED'' \<and> login (author r) = ''bob'')
   \<and> collectUsersToNotify (makeInput\<lparr>actor := ''zed'', machineUsers := [''ci-bot'']\<rparr>) [] [] []
      = []"
  using collect_no_junk [where x = "''bob''" and input = makeInput and cs = "[]"
      and rs = "[makeReview ''bob'' ''APPROVED'']" and as = "[]"
      and actor' = "''zed''" and machineUsers' = "[''ci-bot'']"]
  by (simp add: make_defs collectUsersToNotify_def set_add_def)

end
